theory Spec2Isabelle
  imports Complex_Main
begin

chapter \<open>The program\<close>

section \<open>Python strings and the regular expressions of the cleaner\<close>

text \<open>
  A Python \<^verbatim>\<open>str\<close> is a sequence of Unicode code points; a code point is a
  natural number. \<open>py\<close> turns an ASCII literal into such a sequence.
\<close>

type_synonym pystr = "nat list"

definition py :: "string \<Rightarrow> pystr" where
  "py s = map of_char s"

text \<open>
  \<^verbatim>\<open>str.isspace\<close> on one code point, which is also what \<^verbatim>\<open>\s\<close> matches in
  a \<^verbatim>\<open>str\<close> pattern and what \<^verbatim>\<open>str.strip()\<close> removes: CPython's table of
  whitespace code points.
\<close>

definition py_isspace :: "nat \<Rightarrow> bool" where
  "py_isspace c \<longleftrightarrow>
     (9 \<le> c \<and> c \<le> 13) \<or> (28 \<le> c \<and> c \<le> 32) \<or> c = 133 \<or> c = 160 \<or> c = 5760 \<or>
     (8192 \<le> c \<and> c \<le> 8202) \<or> c = 8232 \<or> c = 8233 \<or> c = 8239 \<or> c = 8287 \<or> c = 12288"

text \<open>\<^verbatim>\<open>s.strip()\<close> and \<^verbatim>\<open>s.strip('_')\<close>: drop the characters of a class at both ends.\<close>

definition strip_class :: "(nat \<Rightarrow> bool) \<Rightarrow> pystr \<Rightarrow> pystr" where
  "strip_class cls s = rev (dropWhile cls (rev (dropWhile cls s)))"

text \<open>\<^verbatim>\<open>s.replace(c, r)\<close> for a one-character \<open>c\<close>: every occurrence is replaced.\<close>

definition replace_char :: "nat \<Rightarrow> pystr \<Rightarrow> pystr \<Rightarrow> pystr" where
  "replace_char c r s = concat (map (\<lambda>x. if x = c then r else [x]) s)"

subsection \<open>A backtracking matcher\<close>

text \<open>
  The patterns of the program are sequences of character classes, each taken once
  (\<open>One\<close>), optionally (\<open>Opt\<close>, the greedy \<^verbatim>\<open>?\<close>), any number of times greedily
  (\<open>Star\<close>, \<open>Plus\<close>) or lazily (\<open>LazyStar\<close>, \<^verbatim>\<open>*?\<close>). \<open>bt p s\<close> matches \<open>p\<close> at the
  start of \<open>s\<close> the way \<^verbatim>\<open>re\<close> does: alternatives are tried in priority order (a greedy
  item first takes a character, a lazy one first takes none), and the first complete
  match wins. The result is the length of the match.
\<close>

datatype item =
    One "nat \<Rightarrow> bool"
  | Opt "nat \<Rightarrow> bool"
  | Star "nat \<Rightarrow> bool"
  | Plus "nat \<Rightarrow> bool"
  | LazyStar "nat \<Rightarrow> bool"

fun bt :: "item list \<Rightarrow> pystr \<Rightarrow> nat option" where
  "bt [] s = Some 0"
| "bt (One c # ps) s =
     (case s of [] \<Rightarrow> None
      | x # xs \<Rightarrow> if c x then map_option Suc (bt ps xs) else None)"
| "bt (Opt c # ps) s =
     (case s of [] \<Rightarrow> bt ps s
      | x # xs \<Rightarrow>
          if c x then (case bt ps xs of Some n \<Rightarrow> Some (Suc n) | None \<Rightarrow> bt ps s)
          else bt ps s)"
| "bt (Star c # ps) s =
     (case s of [] \<Rightarrow> bt ps s
      | x # xs \<Rightarrow>
          if c x then (case bt (Star c # ps) xs of Some n \<Rightarrow> Some (Suc n) | None \<Rightarrow> bt ps s)
          else bt ps s)"
| "bt (Plus c # ps) s =
     (case s of [] \<Rightarrow> None
      | x # xs \<Rightarrow> if c x then map_option Suc (bt (Star c # ps) xs) else None)"
| "bt (LazyStar c # ps) s =
     (case bt ps s of Some n \<Rightarrow> Some n
      | None \<Rightarrow>
          (case s of [] \<Rightarrow> None
           | x # xs \<Rightarrow> if c x then map_option Suc (bt (LazyStar c # ps) xs) else None))"

text \<open>\<^verbatim>\<open>re.search(p, s).group()\<close>: the match at the leftmost position that has one.\<close>

fun re_search :: "item list \<Rightarrow> pystr \<Rightarrow> pystr option" where
  "re_search p s =
     (case bt p s of Some n \<Rightarrow> Some (take n s)
      | None \<Rightarrow> (case s of [] \<Rightarrow> None | x # xs \<Rightarrow> re_search p xs))"

text \<open>
  \<^verbatim>\<open>re.sub(p, repl, s)\<close> for a pattern that never matches the empty string, which
  holds for every pattern substituted in this program: the matches are replaced from
  left to right, the search resuming after each match.
\<close>

fun re_sub :: "item list \<Rightarrow> pystr \<Rightarrow> pystr \<Rightarrow> pystr" where
  "re_sub p repl [] = []"
| "re_sub p repl (x # xs) =
     (case bt p (x # xs) of
        Some (Suc n) \<Rightarrow> repl @ re_sub p repl (drop n xs)
      | _ \<Rightarrow> x # re_sub p repl xs)"

section \<open>Cell values\<close>

text \<open>
  The objects a cell of a loaded table can hold: text, Python integers and floats, the
  float NaN, booleans, \<^verbatim>\<open>None\<close> and \<^verbatim>\<open>pandas.NA\<close>. Floats are idealised as exact
  rationals: rounding error, overflow and the infinities are outside the model.
\<close>

datatype pyval =
    Str pystr
  | PInt int
  | PFloat rat
  | PNaN
  | PBool bool
  | PNone
  | PNA

section \<open>The numeric extractor\<close>

text \<open>
  \<^verbatim>\<open>\d\<close> matches every Unicode decimal digit and \<^verbatim>\<open>float\<close> reads each by its
  digit value. That table belongs to the Unicode database, not to the program: it is the
  parameter \<open>dv\<close>, from a code point to its digit value. \<open>nd_ascii\<close> is its ASCII
  part, and \<open>nd_table_ok\<close> says that a table agrees with it on ASCII.
\<close>

definition nd_ascii :: "nat \<Rightarrow> nat option" where
  "nd_ascii c = (if 48 \<le> c \<and> c \<le> 57 then Some (c - 48) else None)"


definition is_digit :: "(nat \<Rightarrow> nat option) \<Rightarrow> nat \<Rightarrow> bool" where
  "is_digit dv c \<longleftrightarrow> dv c \<noteq> None"

definition is_sign :: "nat \<Rightarrow> bool" where
  "is_sign c \<longleftrightarrow> c = 45 \<or> c = 43"

definition is_dot :: "nat \<Rightarrow> bool" where
  "is_dot c \<longleftrightarrow> c = 46"

text \<open>The pattern \<^verbatim>\<open>[-+]?\d*\.?\d+\<close>.\<close>

definition NUM_RE :: "(nat \<Rightarrow> nat option) \<Rightarrow> item list" where
  "NUM_RE dv = [Opt is_sign, Star (is_digit dv), Opt is_dot, Plus (is_digit dv)]"

text \<open>
  \<^verbatim>\<open>float(m)\<close> for a match \<open>m\<close> of the pattern: an optional sign, the digits before
  the point and the digits after it.
\<close>

definition digits_val :: "(nat \<Rightarrow> nat option) \<Rightarrow> pystr \<Rightarrow> nat" where
  "digits_val dv ds = foldl (\<lambda>acc c. 10 * acc + (case dv c of Some d \<Rightarrow> d | None \<Rightarrow> 0)) 0 ds"

definition unsigned_val :: "(nat \<Rightarrow> nat option) \<Rightarrow> pystr \<Rightarrow> rat" where
  "unsigned_val dv body =
     (let ip = takeWhile (\<lambda>c. \<not> is_dot c) body;
          fp = drop 1 (dropWhile (\<lambda>c. \<not> is_dot c) body)
      in of_nat (digits_val dv ip) + of_nat (digits_val dv fp) / 10 ^ length fp)"

fun py_float_of_match :: "(nat \<Rightarrow> nat option) \<Rightarrow> pystr \<Rightarrow> rat" where
  "py_float_of_match dv [] = 0"
| "py_float_of_match dv (c # r) =
     (if c = 45 then - unsigned_val dv r
      else if c = 43 then unsigned_val dv r
      else unsigned_val dv (c # r))"

text \<open>
  \<^verbatim>\<open>extract_numeric\<close>. The \<^verbatim>\<open>isinstance(value, (int, float))\<close> branch takes a
  \<^verbatim>\<open>bool\<close> too, which is an \<^verbatim>\<open>int\<close> in Python, and NaN, which is a \<^verbatim>\<open>float\<close>.
\<close>

definition cleaned_text :: "pystr \<Rightarrow> pystr" where
  "cleaned_text s = strip_class py_isspace (replace_char 37 [] s)"

fun extract_numeric :: "(nat \<Rightarrow> nat option) \<Rightarrow> pyval \<Rightarrow> pyval" where
  "extract_numeric dv (Str s) =
     (case re_search (NUM_RE dv) (cleaned_text s) of
        Some m \<Rightarrow> PFloat (py_float_of_match dv m)
      | None \<Rightarrow> PNA)"
| "extract_numeric dv (PInt i) = PFloat (of_int i)"
| "extract_numeric dv (PBool b) = PFloat (if b then 1 else 0)"
| "extract_numeric dv (PFloat r) = PFloat r"
| "extract_numeric dv PNaN = PNaN"
| "extract_numeric dv PNone = PNA"
| "extract_numeric dv PNA = PNA"

section \<open>The header normalizer\<close>

text \<open>
  The character classes of \<^verbatim>\<open>clean_headers\<close>: the two full-width parentheses
  (U+FF08, U+FF09), the ASCII parentheses, anything but a newline (the \<^verbatim>\<open>.\<close> of a
  pattern), and the characters that \<^verbatim>\<open>[^a-zA-Z0-9_\s-]\<close> keeps.
\<close>

definition is_fullwidth_paren :: "nat \<Rightarrow> bool" where
  "is_fullwidth_paren c \<longleftrightarrow> c = 65288 \<or> c = 65289"

definition is_lparen :: "nat \<Rightarrow> bool" where
  "is_lparen c \<longleftrightarrow> c = 40"

definition is_rparen :: "nat \<Rightarrow> bool" where
  "is_rparen c \<longleftrightarrow> c = 41"

definition not_newline :: "nat \<Rightarrow> bool" where
  "not_newline c \<longleftrightarrow> c \<noteq> 10"

definition is_ascii_alnum :: "nat \<Rightarrow> bool" where
  "is_ascii_alnum c \<longleftrightarrow> (97 \<le> c \<and> c \<le> 122) \<or> (65 \<le> c \<and> c \<le> 90) \<or> (48 \<le> c \<and> c \<le> 57)"

definition is_underscore :: "nat \<Rightarrow> bool" where
  "is_underscore c \<longleftrightarrow> c = 95"

definition kept_char :: "nat \<Rightarrow> bool" where
  "kept_char c \<longleftrightarrow> is_ascii_alnum c \<or> is_underscore c \<or> py_isspace c \<or> c = 45"

definition dropped_char :: "nat \<Rightarrow> bool" where
  "dropped_char c \<longleftrightarrow> \<not> kept_char c"

text \<open>
  The chain of \<^verbatim>\<open>.str\<close> methods on one label, in the order of the source; the last
  step is \<^verbatim>\<open>encode('ascii', errors='ignore')\<close> and \<^verbatim>\<open>decode('ascii')\<close>, which
  drops every code point from 128 on.
\<close>

definition normalize_label :: "pystr \<Rightarrow> pystr" where
  "normalize_label l =
     (let s1 = re_sub [One is_fullwidth_paren] (py ''()'') l;
          s2 = re_sub [One is_lparen, LazyStar not_newline, One is_rparen] [] s1;
          s3 = re_sub [One dropped_char] [] s2;
          s4 = replace_char 32 (py ''_'') s3;
          s5 = re_sub [Plus is_underscore] (py ''_'') s4;
          s6 = strip_class is_underscore s5
      in filter (\<lambda>c. c < 128) s6)"

definition new_columns :: "pystr list \<Rightarrow> pystr list" where
  "new_columns raw = map normalize_label raw"

text \<open>\<^verbatim>\<open>str(n)\<close> for a natural number, as the f-string writes the counter.\<close>

fun str_of_nat :: "nat \<Rightarrow> pystr" where
  "str_of_nat n = (if n < 10 then [48 + n] else str_of_nat (n div 10) @ [48 + n mod 10])"

declare str_of_nat.simps [simp del]

text \<open>
  The loop over \<^verbatim>\<open>new_columns\<close>: \<open>counts\<close> is the dictionary, the result is
  \<^verbatim>\<open>final_columns\<close>.
\<close>

fun dedup_loop :: "pystr list \<Rightarrow> (pystr \<rightharpoonup> nat) \<Rightarrow> pystr list" where
  "dedup_loop [] counts = []"
| "dedup_loop (c # cs) counts =
     (let col = (if c = [] then py ''unnamed_column'' else c) in
      case counts col of
        Some n \<Rightarrow> (col @ py ''_'' @ str_of_nat (Suc n)) # dedup_loop cs (counts(col \<mapsto> Suc n))
      | None \<Rightarrow> col # dedup_loop cs (counts(col \<mapsto> 0)))"

definition final_columns :: "pystr list \<Rightarrow> pystr list" where
  "final_columns raw = dedup_loop (new_columns raw) Map.empty"

section \<open>Tables\<close>

text \<open>
  A pandas \<^verbatim>\<open>Series\<close> is its dtype and its cells. The loader yields the dtypes
  \<^verbatim>\<open>object\<close>, \<^verbatim>\<open>float64\<close> (NaN is \<open>None\<close> here), \<^verbatim>\<open>int64\<close> and \<^verbatim>\<open>bool\<close>.
  \<open>values_of\<close> gives the cells as the Python objects that \<^verbatim>\<open>apply\<close> and \<^verbatim>\<open>map\<close>
  hand to a function. A \<^verbatim>\<open>DataFrame\<close> is a row count and the labelled columns in
  order; labels may repeat.
\<close>

datatype series =
    ObjectS "pyval list"
  | Float64S "rat option list"
  | Int64S "int list"
  | BoolS "bool list"

fun float_cell :: "rat option \<Rightarrow> pyval" where
  "float_cell None = PNaN"
| "float_cell (Some r) = PFloat r"

fun values_of :: "series \<Rightarrow> pyval list" where
  "values_of (ObjectS xs) = xs"
| "values_of (Float64S xs) = map float_cell xs"
| "values_of (Int64S xs) = map PInt xs"
| "values_of (BoolS xs) = map PBool xs"

fun is_object :: "series \<Rightarrow> bool" where
  "is_object (ObjectS xs) = True"
| "is_object s = False"

text \<open>\<^verbatim>\<open>select_dtypes(include=["number"])\<close> takes the integer and float columns, not bool.\<close>

fun is_number_dtype :: "series \<Rightarrow> bool" where
  "is_number_dtype (Float64S xs) = True"
| "is_number_dtype (Int64S xs) = True"
| "is_number_dtype s = False"

text \<open>\<^verbatim>\<open>isna\<close> on one cell.\<close>

fun isna :: "pyval \<Rightarrow> bool" where
  "isna PNaN = True"
| "isna PNone = True"
| "isna PNA = True"
| "isna v = False"

definition notna :: "pyval \<Rightarrow> bool" where
  "notna v \<longleftrightarrow> \<not> isna v"

record dataframe =
  nrows :: nat
  cols :: "(pystr \<times> series) list"

definition labels :: "dataframe \<Rightarrow> pystr list" where
  "labels df = map fst (cols df)"

definition df_empty :: "dataframe \<Rightarrow> bool" where
  "df_empty df \<longleftrightarrow> nrows df = 0 \<or> cols df = []"

definition df_size :: "dataframe \<Rightarrow> nat" where
  "df_size df = nrows df * length (cols df)"

text \<open>Every column of a table has one cell per row.\<close>

definition wf_df :: "dataframe \<Rightarrow> bool" where
  "wf_df df \<longleftrightarrow> list_all (\<lambda>c. length (values_of (snd c)) = nrows df) (cols df)"

datatype py_error = AttributeError | ValueError | ZeroDivisionError | OSError | ReadError

text \<open>
  \<^verbatim>\<open>df[label]\<close> is a \<^verbatim>\<open>Series\<close> when one column has the label and a
  \<^verbatim>\<open>DataFrame\<close> when several have. \<^verbatim>\<open>df[label] = s\<close> replaces the column in place.
\<close>

datatype selection = Series series | Frame

definition getitem :: "dataframe \<Rightarrow> pystr \<Rightarrow> selection" where
  "getitem df l =
     (case filter (\<lambda>c. fst c = l) (cols df) of
        [c] \<Rightarrow> Series (snd c)
      | _ \<Rightarrow> Frame)"

definition setitem :: "dataframe \<Rightarrow> pystr \<Rightarrow> series \<Rightarrow> dataframe" where
  "setitem df l s = df\<lparr>cols := map (\<lambda>c. if fst c = l then (l, s) else c) (cols df)\<rparr>"

text \<open>\<^verbatim>\<open>clean_headers\<close>: the labels are replaced by \<^verbatim>\<open>final_columns\<close>.\<close>

definition clean_headers :: "dataframe \<Rightarrow> dataframe" where
  "clean_headers df = df\<lparr>cols := zip (final_columns (labels df)) (map snd (cols df))\<rparr>"

section \<open>Numeric extraction over the columns\<close>

text \<open>
  The dtype of the result of \<^verbatim>\<open>Series.apply\<close>: float64 when every result is a float
  (NaN included), object otherwise, as with a \<^verbatim>\<open>pandas.NA\<close> among floats. The results of
  \<^verbatim>\<open>extract_numeric\<close> are floats, NaN and \<^verbatim>\<open>pandas.NA\<close> only.
\<close>

fun float_of_cell :: "pyval \<Rightarrow> rat option option" where
  "float_of_cell (PFloat r) = Some (Some r)"
| "float_of_cell PNaN = Some None"
| "float_of_cell v = None"

definition infer_series :: "pyval list \<Rightarrow> series" where
  "infer_series vs =
     (if list_all (\<lambda>v. float_of_cell v \<noteq> None) vs then Float64S (map (\<lambda>v. the (float_of_cell v)) vs)
      else ObjectS vs)"

fun is_str :: "pyval \<Rightarrow> bool" where
  "is_str (Str s) = True"
| "is_str v = False"

text \<open>
  \<^verbatim>\<open>clean_mixed_columns\<close>: the loop over \<^verbatim>\<open>df.columns\<close>. On a repeated label
  \<^verbatim>\<open>df[column]\<close> is a \<^verbatim>\<open>DataFrame\<close>, which has no \<^verbatim>\<open>dtype\<close>: the test raises
  outside the \<^verbatim>\<open>try\<close>. Nothing inside the \<^verbatim>\<open>try\<close> can raise here, and logging is
  left out of the model.
\<close>

fun cmc_loop :: "(nat \<Rightarrow> nat option) \<Rightarrow> pystr list \<Rightarrow> dataframe \<Rightarrow> py_error + dataframe" where
  "cmc_loop dv [] df = Inr df"
| "cmc_loop dv (column # rest) df =
     (case getitem df column of
        Frame \<Rightarrow> Inl AttributeError
      | Series s \<Rightarrow>
          if is_object s \<and> \<not> list_all isna (values_of s) then
            (let cleaned_series = infer_series (map (extract_numeric dv) (values_of s)) in
             if list_ex notna (values_of cleaned_series) \<or>
                list_all (\<lambda>x. is_str x \<and> extract_numeric dv x = PNA) (values_of s)
             then cmc_loop dv rest (setitem df column cleaned_series)
             else cmc_loop dv rest df)
          else cmc_loop dv rest df)"

definition clean_mixed_columns :: "(nat \<Rightarrow> nat option) \<Rightarrow> dataframe \<Rightarrow> py_error + dataframe" where
  "clean_mixed_columns dv df = cmc_loop dv (labels df) df"

section \<open>The column classifier\<close>

text \<open>
  \<^verbatim>\<open>pd.to_numeric(..., errors='coerce')\<close> on one cell. Which texts pandas reads as a
  number is the library's parser, the parameter \<open>parse\<close>.
\<close>

fun is_int_or_float :: "pyval \<Rightarrow> bool" where
  "is_int_or_float (PInt i) = True"
| "is_int_or_float (PFloat r) = True"
| "is_int_or_float PNaN = True"
| "is_int_or_float (PBool b) = True"
| "is_int_or_float v = False"

fun to_numeric_coerce :: "(pystr \<Rightarrow> rat option) \<Rightarrow> pyval \<Rightarrow> rat option" where
  "to_numeric_coerce parse (Str s) = parse s"
| "to_numeric_coerce parse (PInt i) = Some (of_int i)"
| "to_numeric_coerce parse (PFloat r) = Some r"
| "to_numeric_coerce parse (PBool b) = Some (if b then 1 else 0)"
| "to_numeric_coerce parse v = None"

text \<open>
  The mask of \<^verbatim>\<open>remove_fully_non_numeric_columns\<close>. On a repeated label the test
  raises (the truth value of a \<^verbatim>\<open>Series\<close> of several answers) and the \<^verbatim>\<open>except\<close>
  leaves the flag false. The first loop of the function only logs.
\<close>

definition is_potentially_numeric :: "(pystr \<Rightarrow> rat option) \<Rightarrow> selection \<Rightarrow> bool" where
  "is_potentially_numeric parse sel =
     (case sel of
        Frame \<Rightarrow> False
      | Series s \<Rightarrow>
          if list_ex is_int_or_float (values_of s) then True
          else if list_ex (\<lambda>v. to_numeric_coerce parse v \<noteq> None) (values_of s) then True
          else False)"

definition numeric_cols_mask :: "(pystr \<Rightarrow> rat option) \<Rightarrow> dataframe \<Rightarrow> bool list" where
  "numeric_cols_mask parse df = map (\<lambda>col_name. is_potentially_numeric parse (getitem df col_name)) (labels df)"

definition remove_fully_non_numeric_columns :: "(pystr \<Rightarrow> rat option) \<Rightarrow> dataframe \<Rightarrow> dataframe" where
  "remove_fully_non_numeric_columns parse df =
     df\<lparr>cols := map snd (filter fst (zip (numeric_cols_mask parse df) (cols df)))\<rparr>"

section \<open>The missing-value report\<close>

record report =
  total_datapoints :: nat
  total_missing :: nat
  missing_percentage_dataset :: rat
  missing_percentage_columns :: "(pystr \<times> rat) list"

definition count_na :: "series \<Rightarrow> nat" where
  "count_na s = length (filter isna (values_of s))"

text \<open>\<^verbatim>\<open>df.isna().sum().sum()\<close>: the absent cells of the table.\<close>

definition absent_cells :: "dataframe \<Rightarrow> nat" where
  "absent_cells df = sum_list (map (\<lambda>c. count_na (snd c)) (cols df))"

definition py_truediv :: "rat \<Rightarrow> rat \<Rightarrow> py_error + rat" where
  "py_truediv a b = (if b = 0 then Inl ZeroDivisionError else Inr (a / b))"

text \<open>
  The figures of the report, in the order the source computes them. The text of the
  report and its time stamp are not modelled: a report file holds the figures.
\<close>

definition compute_report :: "dataframe \<Rightarrow> py_error + report" where
  "compute_report df =
     (let total = df_size df;
          missing = absent_cells df;
          per_column =
            (if \<not> df_empty df
             then map (\<lambda>c. (fst c, of_nat (count_na (snd c)) / of_nat (nrows df) * 100)) (cols df)
             else [])
      in case (if 0 < total then
                 (case py_truediv (of_nat missing) (of_nat total) of
                    Inl e \<Rightarrow> Inl e
                  | Inr q \<Rightarrow> Inr (q * 100))
               else Inr 0) of
           Inl e \<Rightarrow> Inl e
         | Inr pct \<Rightarrow>
             Inr \<lparr>total_datapoints = total, total_missing = missing,
                  missing_percentage_dataset = pct, missing_percentage_columns = per_column\<rparr>)"

subsection \<open>Files\<close>

text \<open>
  A path is a folder and a file name. A cell of a written table is text or a number;
  \<^verbatim>\<open>na_rep\<close> is the text written for an absent cell. The file system says which paths
  can be written.
\<close>

type_synonym path = "pystr \<times> pystr"

datatype csv_field = FText pystr | FInt int | FFloat rat | FBool bool

datatype content =
    CsvFile "(pystr \<times> csv_field list) list"
  | ReportFile report

record filesystem =
  files :: "path \<rightharpoonup> content"
  writable :: "path \<Rightarrow> bool"

definition write_file :: "filesystem \<Rightarrow> path \<Rightarrow> content \<Rightarrow> py_error + filesystem" where
  "write_file fs p c =
     (if writable fs p then Inr (fs\<lparr>files := (files fs)(p \<mapsto> c)\<rparr>) else Inl OSError)"

text \<open>
  \<^verbatim>\<open>report_missing_values\<close>: the whole body is inside \<^verbatim>\<open>try\<close>, and the handler
  only logs. The table is handed back as it came.
\<close>

definition report_missing_values ::
    "dataframe \<Rightarrow> path \<Rightarrow> filesystem \<Rightarrow> dataframe \<times> filesystem" where
  "report_missing_values df output_file fs =
     (case (case compute_report df of
              Inl e \<Rightarrow> Inl e
            | Inr r \<Rightarrow> write_file fs output_file (ReportFile r)) of
        Inl e \<Rightarrow> (df, fs)
      | Inr fs' \<Rightarrow> (df, fs'))"

section \<open>The imputer\<close>

text \<open>
  \<^verbatim>\<open>round(3)\<close> rounds to the nearest multiple of 1/1000, a tie to the even one;
  \<^verbatim>\<open>mean\<close> skips the absent cells and is NaN when none is present.
\<close>

definition rint :: "rat \<Rightarrow> int" where
  "rint y =
     (let f = \<lfloor>y\<rfloor>; d = y - of_int f
      in if d < 1 / 2 then f else if 1 / 2 < d then f + 1 else if even f then f else f + 1)"

definition round3 :: "rat \<Rightarrow> rat" where
  "round3 x = of_int (rint (x * 1000)) / 1000"

definition present :: "rat option list \<Rightarrow> rat list" where
  "present xs = concat (map (\<lambda>v. case v of None \<Rightarrow> [] | Some x \<Rightarrow> [x]) xs)"

definition mean_of :: "rat option list \<Rightarrow> rat option" where
  "mean_of xs =
     (if present xs = [] then None
      else Some (sum_list (present xs) / of_nat (length (present xs))))"

fun series_mean :: "series \<Rightarrow> rat option" where
  "series_mean (Float64S xs) = mean_of xs"
| "series_mean (Int64S xs) = mean_of (map (\<lambda>i. Some (of_int i)) xs)"
| "series_mean s = None"

fun fillna_round :: "rat \<Rightarrow> series \<Rightarrow> series" where
  "fillna_round m (Float64S xs) =
     Float64S (map (\<lambda>v. Some (round3 (case v of None \<Rightarrow> m | Some x \<Rightarrow> x))) xs)"
| "fillna_round m s = s"

fun round_series :: "series \<Rightarrow> series" where
  "round_series (Float64S xs) = Float64S (map (map_option round3) xs)"
| "round_series s = s"

text \<open>
  The loop over the numeric columns. On a repeated label \<^verbatim>\<open>df[col].isna().any()\<close> is a
  \<^verbatim>\<open>Series\<close> and its truth value raises.
\<close>

fun numeric_loop :: "pystr list \<Rightarrow> dataframe \<Rightarrow> py_error + dataframe" where
  "numeric_loop [] df = Inr df"
| "numeric_loop (col # rest) df =
     (case getitem df col of
        Frame \<Rightarrow> Inl ValueError
      | Series s \<Rightarrow>
          if list_ex isna (values_of s) then
            (case series_mean s of
               Some mean_val \<Rightarrow> numeric_loop rest (setitem df col (fillna_round mean_val s))
             | None \<Rightarrow> numeric_loop rest df)
          else numeric_loop rest (setitem df col (round_series s)))"

text \<open>The loop over the other columns: \<^verbatim>\<open>fillna(pd.NA)\<close> on the object ones.\<close>

fun fillna_NA :: "series \<Rightarrow> series" where
  "fillna_NA (ObjectS xs) = ObjectS (map (\<lambda>v. if isna v then PNA else v) xs)"
| "fillna_NA s = s"

fun object_loop :: "pystr list \<Rightarrow> dataframe \<Rightarrow> py_error + dataframe" where
  "object_loop [] df = Inr df"
| "object_loop (col # rest) df =
     (case getitem df col of
        Frame \<Rightarrow> Inl AttributeError
      | Series s \<Rightarrow>
          if is_object s then object_loop rest (setitem df col (fillna_NA s))
          else object_loop rest df)"

definition mean_imputation :: "dataframe \<Rightarrow> py_error + dataframe" where
  "mean_imputation df =
     (let numeric_cols = map fst (filter (\<lambda>c. is_number_dtype (snd c)) (cols df));
          non_numeric_cols = map fst (filter (\<lambda>c. \<not> is_number_dtype (snd c)) (cols df))
      in case (if numeric_cols \<noteq> [] \<and> nrows df \<noteq> 0 then numeric_loop numeric_cols df else Inr df) of
           Inl e \<Rightarrow> Inl e
         | Inr df1 \<Rightarrow> object_loop non_numeric_cols df1)"

section \<open>One file through the pipeline\<close>

text \<open>\<^verbatim>\<open>to_csv(index=False, na_rep='NA')\<close>: an absent cell is written as the text NA.\<close>

fun csv_cell :: "pyval \<Rightarrow> csv_field" where
  "csv_cell (Str s) = FText s"
| "csv_cell (PInt i) = FInt i"
| "csv_cell (PFloat r) = FFloat r"
| "csv_cell (PBool b) = FBool b"
| "csv_cell v = FText (py ''NA'')"

definition to_csv :: "dataframe \<Rightarrow> content" where
  "to_csv df = CsvFile (map (\<lambda>c. (fst c, map csv_cell (values_of (snd c)))) (cols df))"

text \<open>
  \<^verbatim>\<open>process_single_csv_file\<close>. \<open>read1\<close> and \<open>read2\<close> are what \<^verbatim>\<open>read_csv\<close>
  gives with the default and with the fallback encoding; the result is the file system
  after the call. An exception of a stage ends the call where it is raised.
\<close>

definition process_single_csv_file ::
    "(nat \<Rightarrow> nat option) \<Rightarrow> (pystr \<Rightarrow> rat option) \<Rightarrow> pystr \<Rightarrow> pystr \<Rightarrow> pystr \<Rightarrow>
     py_error + dataframe \<Rightarrow> py_error + dataframe \<Rightarrow> filesystem \<Rightarrow> filesystem" where
  "process_single_csv_file dv parse report_folder cleaned_folder filename_no_ext read1 read2 fs =
     (case (case read1 of Inr df \<Rightarrow> Inr df | Inl e \<Rightarrow> read2) of
        Inl e \<Rightarrow> fs
      | Inr df \<Rightarrow>
          if df_empty df then fs
          else
            (case clean_mixed_columns dv (clean_headers df) of
               Inl e \<Rightarrow> fs
             | Inr df2 \<Rightarrow>
                 (let df3 = remove_fully_non_numeric_columns parse df2 in
                  if df_empty df3 \<or> length (cols df3) = 0 then
                    (case write_file fs (cleaned_folder, filename_no_ext @ py ''_clean_empty.csv'')
                            (CsvFile []) of
                       Inl e \<Rightarrow> fs
                     | Inr fs' \<Rightarrow> fs')
                  else
                    (case report_missing_values df3
                            (report_folder, filename_no_ext @ py ''_report.txt'') fs of
                       (df4, fs1) \<Rightarrow>
                         (case mean_imputation df4 of
                            Inl e \<Rightarrow> fs1
                          | Inr df5 \<Rightarrow>
                              (case write_file fs1
                                      (cleaned_folder, filename_no_ext @ py ''_clean.csv'')
                                      (to_csv df5) of
                                 Inl e \<Rightarrow> fs1
                               | Inr fs2 \<Rightarrow> fs2))))))"

chapter \<open>The vocabulary of the claims\<close>

subsection \<open>Numeric literals\<close>







subsection \<open>Label shapes\<close>

text \<open>
  \<open>double_underscore\<close>: two underscores in a row somewhere in the label. \<open>word_char\<close>
  are the characters the specification allows in a label, \<open>label_char\<close> the ones the
  code lets through: the hyphen and the ASCII whitespace other than the space as well.
\<close>

fun double_underscore :: "pystr \<Rightarrow> bool" where
  "double_underscore [] = False"
| "double_underscore [x] = False"
| "double_underscore (x # y # r) = ((x = 95 \<and> y = 95) \<or> double_underscore (y # r))"

definition label_char :: "nat \<Rightarrow> bool" where
  "label_char c \<longleftrightarrow>
     is_ascii_alnum c \<or> c = 95 \<or> c = 45 \<or> (9 \<le> c \<and> c \<le> 13) \<or> (28 \<le> c \<and> c \<le> 31)"

definition word_char :: "nat \<Rightarrow> bool" where
  "word_char c \<longleftrightarrow> is_ascii_alnum c \<or> c = 95"

text \<open>The label the loop works with: the fixed name when the normalized label is empty.\<close>

definition placeholder :: "pystr \<Rightarrow> pystr" where
  "placeholder c = (if c = [] then py ''unnamed_column'' else c)"

subsection \<open>Columns by label\<close>

text \<open>
  When the labels of a table are distinct, \<^verbatim>\<open>df[label]\<close> is the column itself and
  each loop of the program over the labels amounts to one change per column.
  \<open>upd_cols F L\<close> applies \<open>F\<close> to the columns whose label is in \<open>L\<close>.
\<close>

definition upd_cols :: "(series \<Rightarrow> series) \<Rightarrow> pystr set \<Rightarrow> dataframe \<Rightarrow> dataframe" where
  "upd_cols F L df = df\<lparr>cols := map (\<lambda>c. if fst c \<in> L then (fst c, F (snd c)) else c) (cols df)\<rparr>"

subsection \<open>The stages, column by column\<close>

text \<open>
  \<open>replaces\<close> is the test of the loop: an object column that is not all absent, and
  whose extraction holds a present value or whose cells are all text without a number.
  \<open>cmc_column\<close> is what the loop leaves in the place of a column.
\<close>

definition replaces :: "(nat \<Rightarrow> nat option) \<Rightarrow> series \<Rightarrow> bool" where
  "replaces dv s \<longleftrightarrow>
     is_object s \<and> list_ex notna (values_of s) \<and>
     (list_ex notna (map (extract_numeric dv) (values_of s)) \<or>
      list_all (\<lambda>x. is_str x \<and> extract_numeric dv x = PNA) (values_of s))"

definition cmc_column :: "(nat \<Rightarrow> nat option) \<Rightarrow> series \<Rightarrow> series" where
  "cmc_column dv s =
     (if replaces dv s then infer_series (map (extract_numeric dv) (values_of s)) else s)"

text \<open>
  The criterion in the claim's words: some value is of a numeric type, or some value is
  coercible to a number.
\<close>

definition numeric_criterion :: "(pystr \<Rightarrow> rat option) \<Rightarrow> series \<Rightarrow> bool" where
  "numeric_criterion parse s \<longleftrightarrow>
     (\<exists>v\<in>set (values_of s). is_int_or_float v) \<or>
     (\<exists>v\<in>set (values_of s). to_numeric_coerce parse v \<noteq> None)"

text \<open>
  \<open>impute_column\<close> is the body of the numeric loop on one column, \<open>obj_column\<close> that of
  the other loop, and \<open>imp_column\<close> what \<^verbatim>\<open>mean_imputation\<close> leaves in the place of a
  column of a table with \<open>n\<close> rows.
\<close>

definition impute_column :: "series \<Rightarrow> series" where
  "impute_column s =
     (if list_ex isna (values_of s) then
        (case series_mean s of Some m \<Rightarrow> fillna_round m s | None \<Rightarrow> s)
      else round_series s)"

definition obj_column :: "series \<Rightarrow> series" where
  "obj_column s = (if is_object s then fillna_NA s else s)"

definition imp_column :: "nat \<Rightarrow> series \<Rightarrow> series" where
  "imp_column n s =
     (if is_number_dtype s then (if n \<noteq> 0 then impute_column s else s) else obj_column s)"

subsection \<open>Example inputs\<close>

text \<open>
  A text parser that reads nothing as a number, a file system where every path can be
  written, and the table of a file with a header and no rows.
\<close>

definition no_parse :: "pystr \<Rightarrow> rat option" where
  "no_parse s = None"

definition open_fs :: filesystem where
  "open_fs = \<lparr>files = Map.empty, writable = (\<lambda>p. True)\<rparr>"

definition header_only :: dataframe where
  "header_only = \<lparr>nrows = 0, cols = [(py ''a'', ObjectS [])]\<rparr>"

text \<open>A table of two rows whose only column is float64 and all NaN.\<close>

definition nan_df :: dataframe where
  "nan_df = \<lparr>nrows = 2, cols = [(py ''a'', Float64S [None, None])]\<rparr>"

text \<open>
  The tables of the first scenario of the specification: a column of text without
  numbers, the two columns after extraction, and a float column with an absent cell.
\<close>

definition notes_df :: dataframe where
  "notes_df = \<lparr>nrows = 3, cols = [(py ''Notes'', ObjectS [Str (py ''x''), Str (py ''y''), Str (py ''z'')])]\<rparr>"



chapter \<open>Proofs\<close>

section \<open>The numeric extractor\<close>

lemma bt_Star_single: "bt [Star c] s = Some (length (takeWhile c s))"
  by (induction s) auto

























section \<open>Header labels\<close>

lemma bt_One_single: "bt [One c] (x # xs) = (if c x then Some (Suc 0) else None)"
  by simp

lemma re_sub_One: "re_sub [One c] r s = concat (map (\<lambda>x. if c x then r else [x]) s)"
  by (induction s) (simp_all del: bt.simps add: bt_One_single)

lemma set_re_sub: "set (re_sub p r s) \<subseteq> set s \<union> set r"
proof (induction p r s rule: re_sub.induct)
  case (1 p repl)
  then show ?case by simp
next
  case (2 p repl x xs)
  show ?case
  proof (cases "bt p (x # xs)")
    case None
    then show ?thesis using 2(1) by (auto simp del: bt.simps)
  next
    case (Some k)
    show ?thesis
    proof (cases k)
      case 0
      then show ?thesis using Some 2(2) by (auto simp del: bt.simps)
    next
      case (Suc n)
      have "set (drop n xs) \<subseteq> set xs" by (rule set_drop_subset)
      then show ?thesis using Some Suc 2(3)[OF Some Suc] by (auto simp del: bt.simps)
    qed
  qed
qed

lemma dd_append:
  "double_underscore (a @ b) \<longleftrightarrow>
     double_underscore a \<or> double_underscore b \<or> (a \<noteq> [] \<and> b \<noteq> [] \<and> last a = 95 \<and> hd b = 95)"
proof (induction a rule: double_underscore.induct)
  case 1
  then show ?case by simp
next
  case (2 x)
  then show ?case by (cases b) auto
next
  case (3 x y r)
  then show ?case by auto
qed

lemma dd_rev: "double_underscore (rev l) = double_underscore l"
proof (induction l rule: double_underscore.induct)
  case (3 x y r)
  then show ?case by (auto simp: dd_append)
qed simp_all

lemma dd_dropWhile: "\<not> double_underscore l \<Longrightarrow> \<not> double_underscore (dropWhile P l)"
  using dd_append[of "takeWhile P l" "dropWhile P l"] by auto

lemma dd_strip: "\<not> double_underscore l \<Longrightarrow> \<not> double_underscore (strip_class P l)"
  by (simp add: strip_class_def dd_rev dd_dropWhile)

lemma strip_ends:
  assumes "strip_class P l \<noteq> []"
  shows "\<not> P (hd (strip_class P l)) \<and> \<not> P (last (strip_class P l))"
proof -
  define ys where "ys = dropWhile P l"
  define zs where "zs = dropWhile P (rev ys)"
  have s: "strip_class P l = rev zs" by (simp add: strip_class_def ys_def zs_def)
  have zne: "zs \<noteq> []" using assms s by simp
  then have yne: "ys \<noteq> []" by (auto simp: zs_def)
  have "\<not> P (hd zs)" using zne unfolding zs_def by (rule hd_dropWhile)
  then have l: "\<not> P (last (rev zs))" using zne by (simp add: last_rev)
  have "rev ys = takeWhile P (rev ys) @ zs" by (simp add: zs_def)
  then have "last (rev ys) = last zs" using zne by (metis last_appendR)
  then have "hd ys = last zs" using yne by (simp add: last_rev)
  moreover have "\<not> P (hd ys)" using yne unfolding ys_def by (rule hd_dropWhile)
  ultimately have "\<not> P (hd (rev zs))" using zne by (simp add: hd_rev)
  then show ?thesis using l s by simp
qed

lemma set_strip: "set (strip_class P l) \<subseteq> set l"
  unfolding strip_class_def by (metis set_rev set_dropWhileD subsetI)

lemma bt_Plus_Cons:
  "bt [Plus c] (x # xs) = (if c x then Some (Suc (length (takeWhile c xs))) else None)"
  by (simp add: bt_Star_single del: bt.simps(4))

lemma re_sub_Plus_hd:
  "s \<noteq> [] \<Longrightarrow> \<not> c (hd s) \<Longrightarrow> re_sub [Plus c] r s \<noteq> [] \<and> hd (re_sub [Plus c] r s) = hd s"
  by (cases s) (simp_all add: bt_Plus_Cons del: bt.simps)

lemma dd_collapse_aux:
  "p = [Plus is_underscore] \<Longrightarrow> r = [95] \<Longrightarrow> \<not> double_underscore (re_sub p r s)"
proof (induction p r s rule: re_sub.induct)
  case (1 p repl)
  then show ?case by simp
next
  case (2 p repl x xs)
  note p = \<open>p = [Plus is_underscore]\<close> and rp = \<open>repl = [95]\<close>
  show ?case
  proof (cases "is_underscore x")
    case True
    define t where "t = drop (length (takeWhile is_underscore xs)) xs"
    have b: "bt p (x # xs) = Some (Suc (length (takeWhile is_underscore xs)))"
      using True by (simp add: p bt_Plus_Cons del: bt.simps)
    have ih: "\<not> double_underscore (re_sub p repl t)"
      unfolding t_def by (rule 2(3)[OF b refl p rp])
    have t: "t = dropWhile is_underscore xs"
      unfolding t_def by (simp add: dropWhile_eq_drop)
    have r: "re_sub p repl (x # xs) = 95 # re_sub p repl t"
      using b by (simp add: t_def rp del: bt.simps)
    show ?thesis
    proof (cases "t = []")
      case True
      then show ?thesis unfolding r by simp
    next
      case False
      then have nu: "\<not> is_underscore (hd t)" unfolding t by (rule hd_dropWhile)
      from re_sub_Plus_hd[of t is_underscore "[95]"] False nu
      have "re_sub p repl t \<noteq> []" "hd (re_sub p repl t) \<noteq> 95"
        using nu by (auto simp: is_underscore_def p rp)
      then show ?thesis using ih dd_append[of "[95]" "re_sub p repl t"]
        unfolding r by simp
    qed
  next
    case False
    then have b: "bt p (x # xs) = None"
      by (simp add: p bt_Plus_Cons del: bt.simps)
    have ih: "\<not> double_underscore (re_sub p repl xs)"
      by (rule 2(1)[OF b p rp])
    have r: "re_sub p repl (x # xs) = x # re_sub p repl xs"
      using b by (simp del: bt.simps)
    show ?thesis using ih False dd_append[of "[x]" "re_sub p repl xs"]
      unfolding r by (simp add: is_underscore_def)
  qed
qed

lemma dd_collapse: "\<not> double_underscore (re_sub [Plus is_underscore] [95] s)"
  by (rule dd_collapse_aux) simp_all

lemma dd_no_underscore: "95 \<notin> set l \<Longrightarrow> \<not> double_underscore l"
  by (induction l rule: double_underscore.induct) auto

lemma str_of_nat_digits: "str_of_nat n \<noteq> [] \<and> (\<forall>c\<in>set (str_of_nat n). 48 \<le> c \<and> c \<le> 57)"
proof (induction n rule: str_of_nat.induct)
  case (1 n)
  show ?case
  proof (cases "n < 10")
    case True
    then show ?thesis by (subst (1 2) str_of_nat.simps) auto
  next
    case False
    have "n mod 10 < 10" by simp
    then have "48 + n mod 10 \<le> 57" by linarith
    then show ?thesis using False 1[OF False]
      by (subst (1 2) str_of_nat.simps) auto
  qed
qed

lemma dedup_loop_length: "length (dedup_loop cs m) = length cs"
  by (induction cs arbitrary: m) (auto simp: Let_def split: option.splits)

lemma dedup_loop_nth:
  "i < length cs \<Longrightarrow>
     dedup_loop cs m ! i = placeholder (cs ! i) \<or>
     (\<exists>n. dedup_loop cs m ! i = placeholder (cs ! i) @ [95] @ str_of_nat n)"
proof (induction cs arbitrary: m i)
  case Nil
  then show ?case by simp
next
  case (Cons c cs)
  show ?case
  proof (cases i)
    case 0
    then show ?thesis
      by (auto simp: Let_def placeholder_def py_def split: option.splits)
  next
    case (Suc j)
    then have "j < length cs" using Cons.prems by simp
    from Cons.IH[OF this] show ?thesis using Suc
      by (auto simp: Let_def split: option.splits)
  qed
qed

lemma kept_ascii_label_char: "kept_char c \<Longrightarrow> c < 128 \<Longrightarrow> c \<noteq> 32 \<Longrightarrow> label_char c"
  by (auto simp: kept_char_def label_char_def py_isspace_def is_underscore_def)

lemma label_char_95: "label_char 95"
  by (simp add: label_char_def)

lemma set_s3: "set (re_sub [One dropped_char] [] s) = {c \<in> set s. kept_char c}"
  by (auto simp: re_sub_One dropped_char_def)

lemma set_s4: "set (replace_char 32 [95] s) \<subseteq> (set s - {32}) \<union> {95}"
  by (auto simp: replace_char_def split: if_splits)

lemma normalize_label_set:
  assumes "c \<in> set (normalize_label l)"
  shows "c < 128 \<and> (c = 95 \<or> (kept_char c \<and> c \<noteq> 32 \<and> c \<in> set l))"
proof -
  define s1 where "s1 = re_sub [One is_fullwidth_paren] (py ''()'') l"
  define s2 where "s2 = re_sub [One is_lparen, LazyStar not_newline, One is_rparen] [] s1"
  define s3 where "s3 = re_sub [One dropped_char] [] s2"
  define s4 where "s4 = replace_char 32 (py ''_'') s3"
  define s5 where "s5 = re_sub [Plus is_underscore] (py ''_'') s4"
  define s6 where "s6 = strip_class is_underscore s5"
  have n: "normalize_label l = filter (\<lambda>c. c < 128) s6"
    by (simp add: normalize_label_def s1_def s2_def s3_def s4_def s5_def s6_def)
  have p: "py ''_'' = [95]" "py ''()'' = [40, 41]" by (simp_all add: py_def)
  have c128: "c < 128" and c6: "c \<in> set s6" using assms n by auto
  have "c \<in> set s5" using c6 set_strip s6_def by blast
  then have "c \<in> set s4 \<or> c = 95" using set_re_sub[of "[Plus is_underscore]" "[95]" s4]
    by (auto simp: s5_def p)
  then have c3: "c = 95 \<or> (c \<in> set s3 \<and> c \<noteq> 32)" using set_s4[of s3] by (auto simp: s4_def p)
  have "set s3 = {c \<in> set s2. kept_char c}" unfolding s3_def by (rule set_s3)
  moreover have "set s2 \<subseteq> set s1" unfolding s2_def using set_re_sub[of _ "[]" s1] by auto
  moreover have "set s1 \<subseteq> set l \<union> {40, 41}" unfolding s1_def p using set_re_sub[of _ "[40, 41]" l] by auto
  moreover have "\<not> kept_char 40" "\<not> kept_char 41"
    by (simp_all add: kept_char_def is_ascii_alnum_def is_underscore_def py_isspace_def)
  ultimately have "set s3 \<subseteq> {c \<in> set l. kept_char c}" by auto
  then show ?thesis using c3 c128 by auto
qed

lemma normalize_label_chars: "list_all label_char (normalize_label l)"
  unfolding list_all_iff
  using normalize_label_set kept_ascii_label_char label_char_95 by blast

lemma normalize_label_ascii_ws:
  assumes ws: "\<forall>c\<in>set l. py_isspace c \<longrightarrow> c < 128"
  shows "normalize_label l = strip_class is_underscore
     (re_sub [Plus is_underscore] [95] (replace_char 32 [95] (re_sub [One dropped_char] []
        (re_sub [One is_lparen, LazyStar not_newline, One is_rparen] []
           (re_sub [One is_fullwidth_paren] [40, 41] l)))))"
proof -
  define s1 where "s1 = re_sub [One is_fullwidth_paren] [40, 41] l"
  define s2 where "s2 = re_sub [One is_lparen, LazyStar not_newline, One is_rparen] [] s1"
  define s3 where "s3 = re_sub [One dropped_char] [] s2"
  define s4 where "s4 = replace_char 32 [95] s3"
  define s5 where "s5 = re_sub [Plus is_underscore] [95] s4"
  define s6 where "s6 = strip_class is_underscore s5"
  have p: "py ''_'' = [95]" "py ''()'' = [40, 41]" by (simp_all add: py_def)
  have n: "normalize_label l = filter (\<lambda>c. c < 128) s6"
    by (simp add: normalize_label_def s1_def s2_def s3_def s4_def s5_def s6_def p)
  have "set s3 = {c \<in> set s2. kept_char c}" unfolding s3_def by (rule set_s3)
  moreover have "set s2 \<subseteq> set s1" unfolding s2_def using set_re_sub[of _ "[]" s1] by auto
  moreover have "set s1 \<subseteq> set l \<union> {40, 41}" unfolding s1_def using set_re_sub[of _ "[40, 41]" l] by auto
  moreover have "\<not> kept_char 40" "\<not> kept_char 41"
    by (simp_all add: kept_char_def is_ascii_alnum_def is_underscore_def py_isspace_def)
  ultimately have "set s3 \<subseteq> {c \<in> set l. kept_char c}" by auto
  moreover have "kept_char c \<Longrightarrow> \<not> py_isspace c \<Longrightarrow> c < 128" for c
    by (auto simp: kept_char_def is_ascii_alnum_def is_underscore_def)
  ultimately have a3: "\<forall>c\<in>set s3. c < 128" using ws by blast
  have "set s6 \<subseteq> set s5" unfolding s6_def by (rule set_strip)
  moreover have "set s5 \<subseteq> set s4 \<union> {95}" unfolding s5_def using set_re_sub[of _ "[95]" s4] by auto
  moreover have "set s4 \<subseteq> set s3 \<union> {95}" unfolding s4_def using set_s4[of s3] by auto
  ultimately have "set s6 \<subseteq> set s3 \<union> {95}" by blast
  then have "\<forall>c\<in>set s6. c < 128" using a3 by auto
  then have "filter (\<lambda>c. c < 128) s6 = s6" by simp
  then show ?thesis using n by (simp add: s1_def s2_def s3_def s4_def s5_def s6_def)
qed

lemma normalize_label_shape:
  assumes ws: "\<forall>c\<in>set l. py_isspace c \<longrightarrow> c < 128"
  shows "\<not> double_underscore (normalize_label l) \<and>
         (normalize_label l \<noteq> [] \<longrightarrow> hd (normalize_label l) \<noteq> 95 \<and> last (normalize_label l) \<noteq> 95)"
  unfolding normalize_label_ascii_ws[OF ws]
  using strip_ends[of is_underscore] dd_strip[OF dd_collapse]
  by (auto simp: is_underscore_def)

lemma placeholder_shape:
  "\<not> double_underscore (py ''unnamed_column'') \<and> hd (py ''unnamed_column'') \<noteq> 95 \<and>
   last (py ''unnamed_column'') \<noteq> 95 \<and> list_all label_char (py ''unnamed_column'') \<and>
   py ''unnamed_column'' \<noteq> []"
  by (simp add: py_def label_char_def is_ascii_alnum_def)

lemma suffixed_shape:
  assumes "col \<noteq> []" "list_all label_char col"
  shows "col @ [95] @ str_of_nat n \<noteq> [] \<and> list_all label_char (col @ [95] @ str_of_nat n) \<and>
     (hd col \<noteq> 95 \<and> last col \<noteq> 95 \<and> \<not> double_underscore col \<longrightarrow>
        hd (col @ [95] @ str_of_nat n) \<noteq> 95 \<and> last (col @ [95] @ str_of_nat n) \<noteq> 95 \<and>
        \<not> double_underscore (col @ [95] @ str_of_nat n))"
proof -
  define ds where "ds = str_of_nat n"
  have d: "ds \<noteq> []" "\<forall>c\<in>set ds. 48 \<le> c \<and> c \<le> 57"
    using str_of_nat_digits[of n] by (simp_all add: ds_def)
  then have "95 \<notin> set ds" by auto
  then have ndd: "\<not> double_underscore ds" by (rule dd_no_underscore)
  have hd95: "hd ds \<noteq> 95" "last ds \<noteq> 95" using d \<open>95 \<notin> set ds\<close>
    by (metis hd_in_set, metis last_in_set)
  have lc: "list_all label_char ds" using d
    by (auto simp: list_all_iff label_char_def is_ascii_alnum_def)
  have dd1: "\<not> double_underscore ([95] @ ds)"
    using ndd hd95 d dd_append[of "[95]" ds] by simp
  show ?thesis
    using assms lc d hd95 dd1 dd_append[of col "[95] @ ds"]
    unfolding ds_def[symmetric]
    by (auto simp: label_char_95)
qed

text \<open>
  C3. The loop suffixes a repeated label with its counter but never records the suffixed
  label, nor checks it against the labels seen: the three distinct raw headers
  \<^verbatim>\<open>a b\<close>, \<^verbatim>\<open>a_b\<close>, \<^verbatim>\<open>a_b_1\<close> come out with \<^verbatim>\<open>a_b_1\<close> twice.
\<close>

theorem final_columns_duplicates:
  "final_columns [py ''a b'', py ''a_b'', py ''a_b_1''] = [py ''a_b'', py ''a_b_1'', py ''a_b_1''] \<and>
   \<not> distinct (final_columns [py ''a b'', py ''a_b'', py ''a_b_1''])"
  by (simp add: final_columns_def new_columns_def normalize_label_def py_def is_fullwidth_paren_def
     is_lparen_def is_rparen_def not_newline_def dropped_char_def kept_char_def is_ascii_alnum_def
     is_underscore_def py_isspace_def replace_char_def strip_class_def str_of_nat.simps)

text \<open>
  C4. Normalizing the output of that run again changes it: the second \<^verbatim>\<open>a_b_1\<close> is
  now a repeated label and becomes \<^verbatim>\<open>a_b_1_1\<close>.
\<close>

theorem final_columns_not_idempotent:
  "final_columns (final_columns [py ''a b'', py ''a_b'', py ''a_b_1'']) =
     [py ''a_b'', py ''a_b_1'', py ''a_b_1_1''] \<and>
   final_columns (final_columns [py ''a b'', py ''a_b'', py ''a_b_1'']) \<noteq>
     final_columns [py ''a b'', py ''a_b'', py ''a_b_1'']"
  by (simp add: final_columns_def new_columns_def normalize_label_def py_def is_fullwidth_paren_def
     is_lparen_def is_rparen_def not_newline_def dropped_char_def kept_char_def is_ascii_alnum_def
     is_underscore_def py_isspace_def replace_char_def strip_class_def str_of_nat.simps)

text \<open>
  C5, as stated, fails: the header \<^verbatim>\<open>a-b\<close> keeps its hyphen, which the character
  class of the filter lets through; and a no-break space (U+00A0) between two
  underscores is dropped only after the underscores were collapsed, leaving two in a row.
\<close>

theorem final_columns_hyphen_counterexample:
  "\<not> list_all word_char (final_columns [py ''a-b''] ! 0) \<and>
   double_underscore (final_columns [[97, 95, 160, 95, 98]] ! 0)"
  by (simp add: final_columns_def new_columns_def normalize_label_def py_def is_fullwidth_paren_def
     is_lparen_def is_rparen_def not_newline_def dropped_char_def kept_char_def is_ascii_alnum_def
     is_underscore_def py_isspace_def replace_char_def strip_class_def word_char_def)

text \<open>
  C5, amended. Every label that header normalization produces is non-empty and made of
  ASCII letters, digits, underscores, hyphens and ASCII whitespace other than the space.
  When the raw label has no whitespace outside ASCII, the label neither starts nor ends
  with an underscore and has no two underscores in a row.
\<close>

theorem final_columns_label_shape:
  assumes i: "i < length raw"
  shows "length (final_columns raw) = length raw \<and>
         final_columns raw ! i \<noteq> [] \<and>
         list_all label_char (final_columns raw ! i) \<and>
         ((\<forall>c\<in>set (raw ! i). py_isspace c \<longrightarrow> c < 128) \<longrightarrow>
            hd (final_columns raw ! i) \<noteq> 95 \<and> last (final_columns raw ! i) \<noteq> 95 \<and>
            \<not> double_underscore (final_columns raw ! i))"
proof -
  define col where "col = placeholder (normalize_label (raw ! i))"
  have len: "length (final_columns raw) = length raw"
    by (simp add: final_columns_def new_columns_def dedup_loop_length)
  have i': "i < length (new_columns raw)" "new_columns raw ! i = normalize_label (raw ! i)"
    using i by (simp_all add: new_columns_def)
  have ne: "col \<noteq> []" using placeholder_shape by (simp add: col_def placeholder_def)
  have ch: "list_all label_char col"
    using placeholder_shape normalize_label_chars by (simp add: col_def placeholder_def)
  have sh: "hd col \<noteq> 95 \<and> last col \<noteq> 95 \<and> \<not> double_underscore col"
    if "\<forall>c\<in>set (raw ! i). py_isspace c \<longrightarrow> c < 128"
    using normalize_label_shape[OF that] placeholder_shape
    by (simp add: col_def placeholder_def)
  from dedup_loop_nth[OF i'(1), of Map.empty]
  have "final_columns raw ! i = col \<or> (\<exists>n. final_columns raw ! i = col @ [95] @ str_of_nat n)"
    by (simp add: final_columns_def i'(2) col_def)
  then show ?thesis
  proof
    assume "final_columns raw ! i = col"
    then show ?thesis using len ne ch sh by simp
  next
    assume "\<exists>n. final_columns raw ! i = col @ [95] @ str_of_nat n"
    then obtain n where e: "final_columns raw ! i = col @ [95] @ str_of_nat n" by blast
    show ?thesis unfolding e using len suffixed_shape[OF ne ch, of n] sh by blast
  qed
qed

theorem final_columns_label_shape_witness:
  "(0::nat) < length [py ''Revenue ($)''] \<and>
   list_all (\<lambda>c. py_isspace c \<longrightarrow> c < 128) (py ''Revenue ($)'') \<and>
   final_columns [py ''Revenue ($)''] ! 0 \<noteq> [] \<and>
   list_all label_char (final_columns [py ''Revenue ($)''] ! 0) \<and>
   hd (final_columns [py ''Revenue ($)''] ! 0) \<noteq> 95 \<and>
   last (final_columns [py ''Revenue ($)''] ! 0) \<noteq> 95 \<and>
   \<not> double_underscore (final_columns [py ''Revenue ($)''] ! 0)"
proof -
  have h: "\<forall>c\<in>set ([py ''Revenue ($)''] ! 0). py_isspace c \<longrightarrow> c < 128"
    by (simp add: py_def py_isspace_def)
  have l: "list_all (\<lambda>c. py_isspace c \<longrightarrow> c < 128) (py ''Revenue ($)'')"
    by (simp add: py_def py_isspace_def)
  from final_columns_label_shape [of 0 "[py ''Revenue ($)'']"] h l show ?thesis
    by simp
qed

section \<open>Columns by label\<close>

lemma filter_label_distinct:
  "distinct (map fst cs) \<Longrightarrow> c \<in> set cs \<Longrightarrow> filter (\<lambda>c'. fst c' = fst c) cs = [c]"
proof (induction cs)
  case Nil
  then show ?case by simp
next
  case (Cons a cs)
  show ?case
  proof (cases "a = c")
    case True
    have "filter (\<lambda>c'. fst c' = fst c) cs = []"
      using Cons.prems(1) True by (force simp: filter_empty_conv image_iff)
    then show ?thesis using True by simp
  next
    case False
    then have "c \<in> set cs" using Cons.prems by simp
    moreover have "fst a \<noteq> fst c" using Cons.prems(1) calculation by force
    ultimately show ?thesis using Cons by simp
  qed
qed

lemma getitem_distinct:
  "distinct (labels df) \<Longrightarrow> c \<in> set (cols df) \<Longrightarrow> getitem df (fst c) = Series (snd c)"
  by (simp add: getitem_def labels_def filter_label_distinct)

lemma getitem_label:
  assumes "distinct (labels df)" "l \<in> set (labels df)"
  shows "\<exists>s. (l, s) \<in> set (cols df) \<and> getitem df l = Series s"
proof -
  from assms(2) obtain c where c: "c \<in> set (cols df)" "fst c = l" by (auto simp: labels_def)
  from getitem_distinct[OF assms(1) c(1)] c show ?thesis by (cases c) auto
qed

lemma labels_setitem: "labels (setitem df l s) = labels df"
  by (simp add: labels_def setitem_def comp_def)

lemma setitem_same:
  assumes "distinct (labels df)" "(l, s) \<in> set (cols df)"
  shows "setitem df l s = df"
proof -
  have "map (\<lambda>c. if fst c = l then (l, s) else c) (cols df) = cols df"
  proof (rule map_idI)
    fix c assume c: "c \<in> set (cols df)"
    show "(if fst c = l then (l, s) else c) = c"
    proof (cases "fst c = l")
      case True
      have "c = (l, s)"
        using assms c True unfolding labels_def
        by (metis distinct_map fst_conv inj_onD)
      then show ?thesis by simp
    qed simp
  qed
  then show ?thesis by (simp add: setitem_def)
qed

lemma upd_cols_step:
  assumes d: "distinct (labels df)" and m: "(l, s) \<in> set (cols df)" and n: "l \<notin> L"
  shows "upd_cols F L (setitem df l (F s)) = upd_cols F (insert l L) df"
proof -
  have "(if fst (if fst c = l then (l, F s) else c) \<in> L
          then (fst (if fst c = l then (l, F s) else c), F (snd (if fst c = l then (l, F s) else c)))
          else (if fst c = l then (l, F s) else c)) =
        (if fst c \<in> insert l L then (fst c, F (snd c)) else c)"
    if c: "c \<in> set (cols df)" for c
  proof (cases "fst c = l")
    case True
    have "c = (l, s)"
      using d m c True unfolding labels_def by (metis distinct_map fst_conv inj_onD)
    then show ?thesis using n by simp
  qed simp
  then show ?thesis
    by (simp add: upd_cols_def setitem_def comp_def)
qed

lemma upd_cols_empty: "upd_cols F {} df = df"
  by (simp add: upd_cols_def)

lemma labels_upd_cols: "labels (upd_cols F L df) = labels df"
  by (simp add: upd_cols_def labels_def comp_def)

lemma upd_cols_all:
  "set (labels df) \<subseteq> L \<Longrightarrow> upd_cols F L df = df\<lparr>cols := map (\<lambda>c. (fst c, F (snd c))) (cols df)\<rparr>"
  unfolding upd_cols_def labels_def by (auto intro!: map_cong arg_cong2[where f="\<lambda>a b. b\<lparr>cols := a\<rparr>"])

section \<open>Numeric extraction over the columns\<close>

lemma float_cell_inv: "float_of_cell v = Some x \<Longrightarrow> float_cell x = v"
  by (cases v) auto

lemma values_of_infer_series: "values_of (infer_series vs) = vs"
proof (cases "list_all (\<lambda>v. float_of_cell v \<noteq> None) vs")
  case True
  have "map (float_cell \<circ> (\<lambda>v. the (float_of_cell v))) vs = vs"
  proof (rule map_idI)
    fix v assume "v \<in> set vs"
    then have "float_of_cell v \<noteq> None" using True by (simp add: list_all_iff)
    then show "(float_cell \<circ> (\<lambda>v. the (float_of_cell v))) v = v"
      by (auto simp: float_cell_inv)
  qed
  then show ?thesis using True by (simp add: infer_series_def)
next
  case False
  then show ?thesis by (simp add: infer_series_def)
qed

lemma not_all_isna: "(\<not> list_all isna vs) = list_ex notna vs"
  by (simp add: list_all_iff list_ex_iff notna_def)

lemma cmc_loop_upd:
  "distinct (labels df) \<Longrightarrow> distinct ls \<Longrightarrow> set ls \<subseteq> set (labels df) \<Longrightarrow>
     cmc_loop dv ls df = Inr (upd_cols (cmc_column dv) (set ls) df)"
proof (induction ls arbitrary: df)
  case Nil
  then show ?case by (simp add: upd_cols_empty)
next
  case (Cons l rest)
  from getitem_label[OF Cons.prems(1), of l] Cons.prems(3)
  obtain s where s: "(l, s) \<in> set (cols df)" "getitem df l = Series s" by auto
  define df1 where "df1 = setitem df l (cmc_column dv s)"
  have l1: "labels df1 = labels df" by (simp add: df1_def labels_setitem)
  have ih: "cmc_loop dv rest df1 = Inr (upd_cols (cmc_column dv) (set rest) df1)"
    using Cons.prems by (intro Cons.IH) (simp_all add: l1)
  have st: "upd_cols (cmc_column dv) (set rest) df1 = upd_cols (cmc_column dv) (set (l # rest)) df"
    unfolding df1_def using upd_cols_step[OF Cons.prems(1) s(1), of "set rest" "cmc_column dv"] Cons.prems(2)
    by simp
  have step: "cmc_loop dv (l # rest) df = cmc_loop dv rest df1"
  proof (cases "replaces dv s")
    case True
    then show ?thesis
      using s(2) by (auto simp: df1_def cmc_column_def replaces_def Let_def values_of_infer_series not_all_isna)
  next
    case False
    then have "df1 = df" using setitem_same[OF Cons.prems(1) s(1)] by (simp add: df1_def cmc_column_def)
    then show ?thesis
      using s(2) False by (auto simp: replaces_def Let_def values_of_infer_series not_all_isna)
  qed
  show ?case using step ih st by simp
qed

lemma clean_mixed_columns_distinct:
  assumes "distinct (labels df)"
  shows "clean_mixed_columns dv df = Inr (df\<lparr>cols := map (\<lambda>c. (fst c, cmc_column dv (snd c))) (cols df)\<rparr>)"
  unfolding clean_mixed_columns_def
  using cmc_loop_upd[OF assms assms, of dv] upd_cols_all[of df "set (labels df)" "cmc_column dv"]
  by simp

lemma cmc_column_all_text:
  assumes "values_of s \<noteq> []" "is_object s"
    "list_all (\<lambda>x. is_str x \<and> extract_numeric dv x = PNA) (values_of s)"
  shows "replaces dv s \<and> cmc_column dv s = ObjectS (replicate (length (values_of s)) PNA)"
proof -
  obtain v vs where v: "values_of s = v # vs" using assms(1) by (cases "values_of s") auto
  then have "is_str v" using assms(3) by simp
  then have "notna v" by (cases v) (auto simp: notna_def)
  then have r: "replaces dv s" using assms v by (simp add: replaces_def)
  have m: "map (extract_numeric dv) (values_of s) = replicate (length (values_of s)) PNA"
    using assms(3) by (auto simp: list_all_iff intro!: replicate_eqI)
  have "infer_series (replicate (length (values_of s)) PNA) = ObjectS (replicate (length (values_of s)) PNA)"
    using v by (simp add: infer_series_def)
  then show ?thesis using r m by (simp add: cmc_column_def)
qed

lemmas ev_text = py_def cleaned_text_def strip_class_def replace_char_def py_isspace_def
    NUM_RE_def nd_ascii_def is_digit_def is_sign_def is_dot_def unsigned_val_def digits_val_def

text \<open>
  C6, as stated, fails: the column \<^verbatim>\<open>Notes\<close> with the cells x, y, z is all text and
  yields no number, and it is replaced by three absent cells, not left as loaded.
\<close>

theorem all_text_column_replaced_counterexample:
  "clean_mixed_columns nd_ascii notes_df =
     Inr \<lparr>nrows = 3, cols = [(py ''Notes'', ObjectS [PNA, PNA, PNA])]\<rparr> \<and>
   clean_mixed_columns nd_ascii notes_df \<noteq> Inr notes_df"
  by (simp add: notes_df_def clean_mixed_columns_def labels_def getitem_def setitem_def
      infer_series_def notna_def ev_text)

text \<open>
  C6, amended. With distinct labels the extraction stage returns a table with the same
  labels and rows, where a column is replaced by its cell-by-cell extraction exactly when
  it is object-typed, not entirely absent, and either the extraction yields a present
  value or every cell is text without an extractable number; every other column is left
  exactly as loaded. So a non-empty all-text column without any number becomes a column
  of absent cells.
\<close>

theorem clean_mixed_columns_replaces:
  assumes d: "distinct (labels df)"
  shows "\<exists>df'. clean_mixed_columns dv df = Inr df' \<and> nrows df' = nrows df \<and> labels df' = labels df \<and>
           (\<forall>i<length (cols df).
              (replaces dv (snd (cols df ! i)) \<longrightarrow>
                 values_of (snd (cols df' ! i)) = map (extract_numeric dv) (values_of (snd (cols df ! i)))) \<and>
              (\<not> replaces dv (snd (cols df ! i)) \<longrightarrow> cols df' ! i = cols df ! i) \<and>
              (is_object (snd (cols df ! i)) \<and> values_of (snd (cols df ! i)) \<noteq> [] \<and>
               list_all (\<lambda>x. is_str x \<and> extract_numeric dv x = PNA) (values_of (snd (cols df ! i))) \<longrightarrow>
                 snd (cols df' ! i) = ObjectS (replicate (length (values_of (snd (cols df ! i)))) PNA)))"
proof -
  define df' where "df' = df\<lparr>cols := map (\<lambda>c. (fst c, cmc_column dv (snd c))) (cols df)\<rparr>"
  have r: "clean_mixed_columns dv df = Inr df'"
    unfolding df'_def by (rule clean_mixed_columns_distinct[OF d])
  have l: "labels df' = labels df" "nrows df' = nrows df"
    by (simp_all add: df'_def labels_def comp_def)
  have n: "cols df' ! i = (fst (cols df ! i), cmc_column dv (snd (cols df ! i)))"
    if "i < length (cols df)" for i using that by (simp add: df'_def)
  have "(replaces dv (snd (cols df ! i)) \<longrightarrow>
                 values_of (snd (cols df' ! i)) = map (extract_numeric dv) (values_of (snd (cols df ! i)))) \<and>
              (\<not> replaces dv (snd (cols df ! i)) \<longrightarrow> cols df' ! i = cols df ! i) \<and>
              (is_object (snd (cols df ! i)) \<and> values_of (snd (cols df ! i)) \<noteq> [] \<and>
               list_all (\<lambda>x. is_str x \<and> extract_numeric dv x = PNA) (values_of (snd (cols df ! i))) \<longrightarrow>
                 snd (cols df' ! i) = ObjectS (replicate (length (values_of (snd (cols df ! i)))) PNA))"
    if i: "i < length (cols df)" for i
    using cmc_column_all_text[of "snd (cols df ! i)" dv]
    by (auto simp: n[OF i] cmc_column_def values_of_infer_series)
  then show ?thesis using r l by blast
qed

theorem clean_mixed_columns_replaces_witness:
  "distinct (labels notes_df) \<and>
   (\<exists>df'. clean_mixed_columns nd_ascii notes_df = Inr df' \<and>
      snd (cols df' ! 0) = ObjectS (replicate 3 PNA))"
proof -
  have d: "distinct (labels notes_df)" by (simp add: notes_df_def labels_def)
  have h: "is_object (snd (cols notes_df ! 0)) \<and> values_of (snd (cols notes_df ! 0)) \<noteq> [] \<and>
      list_all (\<lambda>x. is_str x \<and> extract_numeric nd_ascii x = PNA) (values_of (snd (cols notes_df ! 0)))"
    by (simp add: notes_df_def ev_text)
  have l: "length (values_of (snd (cols notes_df ! 0))) = 3" "0 < length (cols notes_df)"
    by (simp_all add: notes_df_def)
  from clean_mixed_columns_replaces [OF d, of nd_ascii] obtain df' where
    r: "clean_mixed_columns nd_ascii notes_df = Inr df'" and
    a: "\<forall>i<length (cols notes_df).
              (replaces nd_ascii (snd (cols notes_df ! i)) \<longrightarrow>
                 values_of (snd (cols df' ! i)) = map (extract_numeric nd_ascii) (values_of (snd (cols notes_df ! i)))) \<and>
              (\<not> replaces nd_ascii (snd (cols notes_df ! i)) \<longrightarrow> cols df' ! i = cols notes_df ! i) \<and>
              (is_object (snd (cols notes_df ! i)) \<and> values_of (snd (cols notes_df ! i)) \<noteq> [] \<and>
               list_all (\<lambda>x. is_str x \<and> extract_numeric nd_ascii x = PNA) (values_of (snd (cols notes_df ! i))) \<longrightarrow>
                 snd (cols df' ! i) = ObjectS (replicate (length (values_of (snd (cols notes_df ! i)))) PNA))"
    by blast
  from a l(2) h have "snd (cols df' ! 0) = ObjectS (replicate (length (values_of (snd (cols notes_df ! 0)))) PNA)"
    by blast
  then have "snd (cols df' ! 0) = ObjectS (replicate 3 PNA)" by (simp only: l(1))
  then show ?thesis using d r by blast
qed

section \<open>Column pruning\<close>

lemma mask_filter: "map snd (filter fst (zip (map f xs) xs)) = filter f xs"
  by (induction xs) auto

lemma numeric_cols_mask_distinct:
  assumes "distinct (labels df)"
  shows "numeric_cols_mask parse df = map (\<lambda>c. numeric_criterion parse (snd c)) (cols df)"
proof -
  have "is_potentially_numeric parse (getitem df (fst c)) = numeric_criterion parse (snd c)"
    if "c \<in> set (cols df)" for c
    using getitem_distinct[OF assms that]
    by (simp add: is_potentially_numeric_def numeric_criterion_def list_ex_iff)
  then show ?thesis by (simp add: numeric_cols_mask_def labels_def)
qed



section \<open>Imputation\<close>

lemma numeric_loop_upd:
  "distinct (labels df) \<Longrightarrow> distinct ls \<Longrightarrow> set ls \<subseteq> set (labels df) \<Longrightarrow>
     numeric_loop ls df = Inr (upd_cols impute_column (set ls) df)"
proof (induction ls arbitrary: df)
  case Nil
  then show ?case by (simp add: upd_cols_empty)
next
  case (Cons l rest)
  from getitem_label[OF Cons.prems(1), of l] Cons.prems(3)
  obtain s where s: "(l, s) \<in> set (cols df)" "getitem df l = Series s" by auto
  define df1 where "df1 = setitem df l (impute_column s)"
  have l1: "labels df1 = labels df" by (simp add: df1_def labels_setitem)
  have ih: "numeric_loop rest df1 = Inr (upd_cols impute_column (set rest) df1)"
    using Cons.prems by (intro Cons.IH) (simp_all add: l1)
  have st: "upd_cols impute_column (set rest) df1 = upd_cols impute_column (set (l # rest)) df"
    unfolding df1_def using upd_cols_step[OF Cons.prems(1) s(1), of "set rest" impute_column] Cons.prems(2)
    by simp
  have same: "setitem df l s = df" by (rule setitem_same[OF Cons.prems(1) s(1)])
  have step: "numeric_loop (l # rest) df = numeric_loop rest df1"
    using s(2) same by (auto simp: df1_def impute_column_def split: option.splits)
  show ?case using step ih st by simp
qed

lemma object_loop_upd:
  "distinct (labels df) \<Longrightarrow> distinct ls \<Longrightarrow> set ls \<subseteq> set (labels df) \<Longrightarrow>
     object_loop ls df = Inr (upd_cols obj_column (set ls) df)"
proof (induction ls arbitrary: df)
  case Nil
  then show ?case by (simp add: upd_cols_empty)
next
  case (Cons l rest)
  from getitem_label[OF Cons.prems(1), of l] Cons.prems(3)
  obtain s where s: "(l, s) \<in> set (cols df)" "getitem df l = Series s" by auto
  define df1 where "df1 = setitem df l (obj_column s)"
  have l1: "labels df1 = labels df" by (simp add: df1_def labels_setitem)
  have ih: "object_loop rest df1 = Inr (upd_cols obj_column (set rest) df1)"
    using Cons.prems by (intro Cons.IH) (simp_all add: l1)
  have st: "upd_cols obj_column (set rest) df1 = upd_cols obj_column (set (l # rest)) df"
    unfolding df1_def using upd_cols_step[OF Cons.prems(1) s(1), of "set rest" obj_column] Cons.prems(2)
    by simp
  have same: "setitem df l s = df" by (rule setitem_same[OF Cons.prems(1) s(1)])
  have step: "object_loop (l # rest) df = object_loop rest df1"
    using s(2) same by (auto simp: df1_def obj_column_def)
  show ?case using step ih st by simp
qed

lemma label_class:
  assumes d: "distinct (labels df)" and c: "c \<in> set (cols df)"
  shows "fst c \<in> set (map fst (filter P (cols df))) \<longleftrightarrow> P c"
proof
  assume "fst c \<in> set (map fst (filter P (cols df)))"
  then obtain c' where c': "c' \<in> set (cols df)" "P c'" "fst c' = fst c" by auto
  then have "c' = c" using d c unfolding labels_def by (metis distinct_map inj_onD)
  then show "P c" using c' by simp
next
  assume "P c"
  then show "fst c \<in> set (map fst (filter P (cols df)))" using c by auto
qed

lemma mean_imputation_cols:
  assumes d: "distinct (labels df)"
  shows "mean_imputation df =
           Inr (df\<lparr>cols := map (\<lambda>c. (fst c, imp_column (nrows df) (snd c))) (cols df)\<rparr>)"
proof -
  define num where "num = map fst (filter (\<lambda>c. is_number_dtype (snd c)) (cols df))"
  define non where "non = map fst (filter (\<lambda>c. \<not> is_number_dtype (snd c)) (cols df))"
  define run where "run \<longleftrightarrow> num \<noteq> [] \<and> nrows df \<noteq> 0"
  define df1 where "df1 = (if run then upd_cols impute_column (set num) df else df)"
  have dn: "distinct num" "distinct non"
    using d unfolding num_def non_def labels_def by (simp_all add: distinct_map_filter)
  have sn: "set num \<subseteq> set (labels df)" "set non \<subseteq> set (labels df)"
    unfolding num_def non_def labels_def by auto
  have n1: "(if run then numeric_loop num df else Inr df) = Inr df1"
    using numeric_loop_upd[OF d dn(1) sn(1)] by (simp add: df1_def)
  have l1: "labels df1 = labels df" by (simp add: df1_def labels_upd_cols)
  have o1: "object_loop non df1 = Inr (upd_cols obj_column (set non) df1)"
    using d dn(2) sn(2) by (intro object_loop_upd) (simp_all add: l1)
  have m: "mean_imputation df = Inr (upd_cols obj_column (set non) df1)"
    unfolding mean_imputation_def Let_def num_def[symmetric] non_def[symmetric] run_def[symmetric]
    using n1 o1 by simp
  have c1: "cols df1 = map (\<lambda>c. if is_number_dtype (snd c) \<and> run then (fst c, impute_column (snd c)) else c) (cols df)"
    using label_class[OF d, of _ "\<lambda>c. is_number_dtype (snd c)"]
    by (auto simp: df1_def upd_cols_def num_def)
  have runI: "run" if "c \<in> set (cols df)" "is_number_dtype (snd c)" "nrows df \<noteq> 0" for c
    using that unfolding run_def num_def by (auto simp: filter_empty_conv)
  have "(if fst (if is_number_dtype (snd c) \<and> run then (fst c, impute_column (snd c)) else c) \<in> set non
         then (fst (if is_number_dtype (snd c) \<and> run then (fst c, impute_column (snd c)) else c),
               obj_column (snd (if is_number_dtype (snd c) \<and> run then (fst c, impute_column (snd c)) else c)))
         else (if is_number_dtype (snd c) \<and> run then (fst c, impute_column (snd c)) else c)) =
        (fst c, imp_column (nrows df) (snd c))"
    if c: "c \<in> set (cols df)" for c
  proof -
    have k: "fst c \<in> set non \<longleftrightarrow> \<not> is_number_dtype (snd c)"
      unfolding non_def by (rule label_class[OF d c])
    show ?thesis
    proof (cases "is_number_dtype (snd c)")
      case True
      then show ?thesis using k runI[OF c True] by (cases c) (auto simp: imp_column_def run_def)
    next
      case False
      then show ?thesis using k by (cases c) (auto simp: imp_column_def)
    qed
  qed
  then have "cols (upd_cols obj_column (set non) df1) = map (\<lambda>c. (fst c, imp_column (nrows df) (snd c))) (cols df)"
    by (simp add: upd_cols_def c1 comp_def)
  moreover have "upd_cols obj_column (set non) df1 = df\<lparr>cols := cols (upd_cols obj_column (set non) df1)\<rparr>"
    by (simp add: upd_cols_def df1_def)
  ultimately show ?thesis using m by simp
qed

lemma isna_float_cells: "list_ex isna (map float_cell xs) = (None \<in> set xs)"
proof -
  have "isna (float_cell v) = (v = None)" for v by (cases v) auto
  then show ?thesis by (auto simp: list_ex_iff)
qed

lemma present_Nil_iff: "present xs = [] \<longleftrightarrow> set xs \<subseteq> {None}"
  by (induction xs) (auto simp: present_def split: option.splits)




section \<open>The report\<close>


section \<open>Files without rows\<close>

text \<open>
  C2, as stated, fails: for a file with a header and no rows the call returns at the
  emptiness test after loading, and no placeholder file exists afterwards.
\<close>

theorem zero_rows_placeholder_counterexample:
  "files (process_single_csv_file nd_ascii no_parse (py ''reports'') (py ''cleaned'') (py ''in'')
            (Inr header_only) (Inl ReadError) open_fs)
     (py ''cleaned'', py ''in'' @ py ''_clean_empty.csv'') = None"
  by (simp add: process_single_csv_file_def df_empty_def header_only_def open_fs_def)

text \<open>
  C2, amended. For every input file that loads (at the first or the second attempt) to a
  table with zero rows, the pipeline writes nothing: the file system after the call is
  the one before it, so there is no placeholder, no cleaned file and no report, and no
  stage after loading runs.
\<close>

theorem zero_rows_no_output:
  assumes "read1 = Inr df \<or> (\<exists>e. read1 = Inl e \<and> read2 = Inr df)" and "nrows df = 0"
  shows "process_single_csv_file dv parse report_folder cleaned_folder filename_no_ext read1 read2 fs = fs"
  using assms by (auto simp: process_single_csv_file_def df_empty_def)

theorem zero_rows_no_output_witness:
  "nrows header_only = 0 \<and>
   process_single_csv_file nd_ascii no_parse (py ''reports'') (py ''cleaned'') (py ''in'')
      (Inr header_only) (Inl ReadError) open_fs = open_fs"
  using zero_rows_no_output [of "Inr header_only" header_only "Inl ReadError" nd_ascii no_parse
      "py ''reports''" "py ''cleaned''" "py ''in''" open_fs]
  by (simp add: header_only_def)

section \<open>A column of absent floats through the pipeline\<close>

lemma final_columns_length: "length (final_columns raw) = length raw"
  by (simp add: final_columns_def new_columns_def dedup_loop_length)

lemma labels_clean_headers: "labels (clean_headers df) = final_columns (labels df)"
  by (simp add: clean_headers_def labels_def final_columns_length)

lemma cols_clean_headers_nth:
  "i < length (cols df) \<Longrightarrow>
     cols (clean_headers df) ! i = (final_columns (labels df) ! i, snd (cols df ! i))"
  by (simp add: clean_headers_def labels_def final_columns_length)

lemma report_keeps_writable:
  "writable (snd (report_missing_values df out fs)) = writable fs"
  by (auto simp: report_missing_values_def write_file_def split: sum.splits if_splits)

lemma report_keeps_table: "fst (report_missing_values df out fs) = df"
  by (auto simp: report_missing_values_def split: sum.splits)

lemma all_nan_values:
  "set xs \<subseteq> {None} \<Longrightarrow> map csv_cell (map float_cell xs) = replicate (length xs) (FText (py ''NA''))"
  by (induction xs) auto

text \<open>
  C10. Take a file that loads to a well-formed table with at least one row, whose
  normalized labels are distinct and whose cleaned path can be written, and a float column
  of it whose cells are all NaN. The extraction stage succeeds, the classifier keeps the
  column under its normalized label, the imputer succeeds and leaves every cell of the
  column absent, and the cleaned file is written with that column holding the text NA in
  every row.
\<close>

theorem all_nan_column_kept:
  assumes rd: "read1 = Inr df \<or> (\<exists>e. read1 = Inl e \<and> read2 = Inr df)"
    and ne: "nrows df \<noteq> 0" and w: "wf_df df"
    and d: "distinct (final_columns (labels df))"
    and i: "i < length (cols df)" and x: "snd (cols df ! i) = Float64S xs"
    and a: "set xs \<subseteq> {None}"
    and wr: "writable fs (cleaned_folder, filename_no_ext @ py ''_clean.csv'')"
  shows "\<exists>df2 df5 tbl.
      clean_mixed_columns dv (clean_headers df) = Inr df2 \<and>
      (final_columns (labels df) ! i, Float64S xs) \<in>
         set (cols (remove_fully_non_numeric_columns parse df2)) \<and>
      mean_imputation (remove_fully_non_numeric_columns parse df2) = Inr df5 \<and>
      (final_columns (labels df) ! i, Float64S xs) \<in> set (cols df5) \<and>
      files (process_single_csv_file dv parse report_folder cleaned_folder filename_no_ext
               read1 read2 fs)
        (cleaned_folder, filename_no_ext @ py ''_clean.csv'') = Some (CsvFile tbl) \<and>
      (final_columns (labels df) ! i, replicate (nrows df) (FText (py ''NA''))) \<in> set tbl"
proof -
  define l where "l = final_columns (labels df) ! i"
  define df1 where "df1 = clean_headers df"
  define df2 where "df2 = df1\<lparr>cols := map (\<lambda>c. (fst c, cmc_column dv (snd c))) (cols df1)\<rparr>"
  define df3 where "df3 = remove_fully_non_numeric_columns parse df2"
  define df5 where "df5 = df3\<lparr>cols := map (\<lambda>c. (fst c, imp_column (nrows df3) (snd c))) (cols df3)\<rparr>"
  define out where "out = (report_folder, filename_no_ext @ py ''_report.txt'')"
  define fs1 where "fs1 = snd (report_missing_values df3 out fs)"
  have lx: "length xs = nrows df"
  proof -
    have "cols df ! i \<in> set (cols df)" using i by simp
    then have "length (values_of (snd (cols df ! i))) = nrows df"
      using w by (auto simp: wf_df_def list_all_iff)
    then show ?thesis using x by simp
  qed
  then have xne: "xs \<noteq> []" using ne by auto
  have d1: "distinct (labels df1)" using d by (simp add: df1_def labels_clean_headers)
  have n1: "nrows df1 = nrows df" by (simp add: df1_def clean_headers_def)
  have c1: "(l, Float64S xs) \<in> set (cols df1)"
  proof -
    have "length (cols df1) = length (cols df)"
      by (simp add: df1_def clean_headers_def labels_def final_columns_length)
    moreover have "cols df1 ! i = (l, Float64S xs)"
      using cols_clean_headers_nth[OF i] x by (simp add: df1_def l_def)
    ultimately show ?thesis using i by (metis nth_mem)
  qed
  have r2: "clean_mixed_columns dv df1 = Inr df2"
    unfolding df2_def by (rule clean_mixed_columns_distinct[OF d1])
  have d2: "distinct (labels df2)" using d1 by (simp add: df2_def labels_def comp_def)
  have n2: "nrows df2 = nrows df" using n1 by (simp add: df2_def)
  have "cmc_column dv (Float64S xs) = Float64S xs" by (simp add: cmc_column_def replaces_def)
  then have c2: "(l, Float64S xs) \<in> set (cols df2)"
    using c1 by (force simp: df2_def)
  have crit: "numeric_criterion parse (Float64S xs)"
  proof -
    obtain y ys where "xs = y # ys" using xne by (cases xs) auto
    moreover have "y = None" using a calculation by auto
    ultimately show ?thesis by (simp add: numeric_criterion_def)
  qed
  have cols3: "cols df3 = filter (\<lambda>c. numeric_criterion parse (snd c)) (cols df2)"
    by (simp add: df3_def remove_fully_non_numeric_columns_def numeric_cols_mask_distinct[OF d2] mask_filter)
  have c3: "(l, Float64S xs) \<in> set (cols df3)" using c2 crit by (simp add: cols3)
  have n3: "nrows df3 = nrows df" using n2 by (simp add: df3_def remove_fully_non_numeric_columns_def)
  have d3: "distinct (labels df3)"
    using d2 unfolding labels_def cols3 by (rule distinct_map_filter)
  have ne3: "\<not> (df_empty df3 \<or> length (cols df3) = 0)"
    using c3 n3 ne by (auto simp: df_empty_def)
  have r5: "mean_imputation df3 = Inr df5"
    unfolding df5_def by (rule mean_imputation_cols[OF d3])
  have nin: "None \<in> set xs" using a xne by (cases xs) auto
  have "present xs = []" using a by (simp add: present_Nil_iff)
  then have "impute_column (Float64S xs) = Float64S xs"
    using nin by (simp add: impute_column_def isna_float_cells mean_of_def)
  then have "imp_column (nrows df3) (Float64S xs) = Float64S xs"
    by (simp add: imp_column_def)
  then have c5: "(l, Float64S xs) \<in> set (cols df5)"
    using c3 by (force simp: df5_def)
  have rp: "report_missing_values df3 out fs = (df3, fs1)"
    using report_keeps_table[of df3 out fs] by (simp add: fs1_def prod_eq_iff)
  have w1: "writable fs1 (cleaned_folder, filename_no_ext @ py ''_clean.csv'')"
    using wr by (simp add: fs1_def report_keeps_writable)
  have ld: "(case (case read1 of Inr df \<Rightarrow> Inr df | Inl e \<Rightarrow> read2) of Inl e \<Rightarrow> A | Inr df \<Rightarrow> B df) = B df"
    for A :: filesystem and B
    using rd by auto
  have nemp: "\<not> df_empty df" using ne i by (auto simp: df_empty_def)
  have p: "process_single_csv_file dv parse report_folder cleaned_folder filename_no_ext read1 read2 fs =
        fs1\<lparr>files := (files fs1)((cleaned_folder, filename_no_ext @ py ''_clean.csv'') \<mapsto> to_csv df5)\<rparr>"
    unfolding process_single_csv_file_def ld
    using nemp r2 ne3 rp r5 w1
    by (simp add: df1_def[symmetric] df3_def[symmetric] out_def[symmetric] Let_def write_file_def)
  have t: "(l, replicate (nrows df) (FText (py ''NA''))) \<in>
             set (map (\<lambda>c. (fst c, map csv_cell (values_of (snd c)))) (cols df5))"
    using c5 all_nan_values[OF a] lx by force
  show ?thesis
    apply (rule exI[of _ df2], rule exI[of _ df5],
           rule exI[of _ "map (\<lambda>c. (fst c, map csv_cell (values_of (snd c)))) (cols df5)"])
    using r2 c3 r5 c5 p t
    by (simp add: df1_def[symmetric] df3_def[symmetric] l_def[symmetric] to_csv_def)
qed

theorem all_nan_column_kept_witness:
  "nrows nan_df \<noteq> 0 \<and> wf_df nan_df \<and> distinct (final_columns (labels nan_df)) \<and>
   writable open_fs (py ''cleaned'', py ''in'' @ py ''_clean.csv'') \<and>
   (\<exists>tbl. files (process_single_csv_file nd_ascii no_parse (py ''reports'') (py ''cleaned'') (py ''in'')
                  (Inr nan_df) (Inl ReadError) open_fs)
             (py ''cleaned'', py ''in'' @ py ''_clean.csv'') = Some (CsvFile tbl) \<and>
          (py ''a'', [FText (py ''NA''), FText (py ''NA'')]) \<in> set tbl)"
proof -
  have fc: "final_columns (labels nan_df) = [py ''a'']"
    by (simp add: nan_df_def labels_def final_columns_def new_columns_def normalize_label_def py_def
        is_fullwidth_paren_def is_lparen_def is_rparen_def not_newline_def dropped_char_def
        kept_char_def is_ascii_alnum_def is_underscore_def py_isspace_def replace_char_def
        strip_class_def)
  have rd: "Inr nan_df = Inr nan_df \<or> (\<exists>e. (Inr nan_df :: py_error + dataframe) = Inl e \<and> Inl ReadError = Inr nan_df)"
    by simp
  have ne: "nrows nan_df \<noteq> 0" by (simp add: nan_df_def)
  have w: "wf_df nan_df" by (simp add: nan_df_def wf_df_def)
  have d: "distinct (final_columns (labels nan_df))" by (simp add: fc)
  have i: "0 < length (cols nan_df)" by (simp add: nan_df_def)
  have x: "snd (cols nan_df ! 0) = Float64S [None, None]" by (simp add: nan_df_def)
  have a: "set [None :: rat option, None] \<subseteq> {None}" by simp
  have wr: "writable open_fs (py ''cleaned'', py ''in'' @ py ''_clean.csv'')"
    by (simp add: open_fs_def)
  from all_nan_column_kept [OF rd ne w d i x a wr, of nd_ascii no_parse "py ''reports''"]
  obtain tbl where
    "files (process_single_csv_file nd_ascii no_parse (py ''reports'') (py ''cleaned'') (py ''in'')
                  (Inr nan_df) (Inl ReadError) open_fs)
             (py ''cleaned'', py ''in'' @ py ''_clean.csv'') = Some (CsvFile tbl)"
    "(final_columns (labels nan_df) ! 0, replicate (nrows nan_df) (FText (py ''NA''))) \<in> set tbl"
    by blast
  moreover have "final_columns (labels nan_df) ! 0 = py ''a''" by (simp add: fc)
  moreover have "replicate (nrows nan_df) (FText (py ''NA'')) = [FText (py ''NA''), FText (py ''NA'')]"
    by (simp add: nan_df_def numeral_2_eq_2)
  ultimately show ?thesis using ne w d wr by auto
qed

end
